theory Spec2Isabelle
  imports Complex_Main
begin

section \<open>Python strings\<close>

text \<open>
  A Python \<^verbatim>\<open>str\<close> is a sequence of code points. The model is \<open>string\<close>, one
  \<open>char\<close> per code point, which covers the code points below 256 (Latin-1); \<open>length\<close>
  is then Python's \<^verbatim>\<open>len\<close>. The predicates below are Python's character classes
  on that range.
\<close>

definition nl :: string where
  "nl = [CHR 0x0A]"

text \<open>\<^verbatim>\<open>str.isspace\<close>, which is also what \<^verbatim>\<open>\s\<close> matches and what \<^verbatim>\<open>strip()\<close> removes.\<close>

definition isspace :: "char \<Rightarrow> bool" where
  "isspace c = (c \<in> set [CHR 0x09, CHR 0x0A, CHR 0x0B, CHR 0x0C, CHR 0x0D,
                          CHR 0x1C, CHR 0x1D, CHR 0x1E, CHR 0x1F, CHR 0x20, CHR 0x85, CHR 0xA0])"

text \<open>What \<^verbatim>\<open>\d\<close> matches: the decimal digits.\<close>

definition isdecimal :: "char \<Rightarrow> bool" where
  "isdecimal c = (c \<in> set ''0123456789'')"

text \<open>
  The simple lower-case mapping, which \<^verbatim>\<open>re.IGNORECASE\<close> compares by: the letters
  \<open>A\<close> to \<open>Z\<close> and the capital letters of Latin-1 (\<open>0xC0\<close> to \<open>0xDE\<close> without the
  multiplication sign \<open>0xD7\<close>) map to the character 32 places further.
\<close>

definition uppers :: string where
  "uppers = ''ABCDEFGHIJKLMNOPQRSTUVWXYZ'' @
     [CHR 0xC0, CHR 0xC1, CHR 0xC2, CHR 0xC3, CHR 0xC4, CHR 0xC5, CHR 0xC6, CHR 0xC7,
      CHR 0xC8, CHR 0xC9, CHR 0xCA, CHR 0xCB, CHR 0xCC, CHR 0xCD, CHR 0xCE, CHR 0xCF,
      CHR 0xD0, CHR 0xD1, CHR 0xD2, CHR 0xD3, CHR 0xD4, CHR 0xD5, CHR 0xD6,
      CHR 0xD8, CHR 0xD9, CHR 0xDA, CHR 0xDB, CHR 0xDC, CHR 0xDD, CHR 0xDE]"

definition lowers :: string where
  "lowers = ''abcdefghijklmnopqrstuvwxyz'' @
     [CHR 0xE0, CHR 0xE1, CHR 0xE2, CHR 0xE3, CHR 0xE4, CHR 0xE5, CHR 0xE6, CHR 0xE7,
      CHR 0xE8, CHR 0xE9, CHR 0xEA, CHR 0xEB, CHR 0xEC, CHR 0xED, CHR 0xEE, CHR 0xEF,
      CHR 0xF0, CHR 0xF1, CHR 0xF2, CHR 0xF3, CHR 0xF4, CHR 0xF5, CHR 0xF6,
      CHR 0xF8, CHR 0xF9, CHR 0xFA, CHR 0xFB, CHR 0xFC, CHR 0xFD, CHR 0xFE]"

definition lower :: "char \<Rightarrow> char" where
  "lower c = (case map_of (zip uppers lowers) c of None \<Rightarrow> c | Some l \<Rightarrow> l)"

definition strip :: "string \<Rightarrow> string" where
  "strip s = rev (dropWhile isspace (rev (dropWhile isspace s)))"

text \<open>\<^verbatim>\<open>sep.join(xs)\<close>\<close>

fun join :: "string \<Rightarrow> string list \<Rightarrow> string" where
  "join sep [] = []"
| "join sep [x] = x"
| "join sep (x # y # ys) = x @ sep @ join sep (y # ys)"

text \<open>\<^verbatim>\<open>s.split(sep)\<close> for a separator of one character: never the empty list.\<close>

fun split_on :: "char \<Rightarrow> string \<Rightarrow> string list" where
  "split_on sep [] = [[]]"
| "split_on sep (c # cs) =
     (if c = sep then [] # split_on sep cs
      else (case split_on sep cs of [] \<Rightarrow> [[c]] | l # ls \<Rightarrow> (c # l) # ls))"

text \<open>Splitting at runs of whitespace, as the parser does for the \<^verbatim>\<open>class\<close> attribute.\<close>

fun split_ws_from :: "string \<Rightarrow> string \<Rightarrow> string list" where
  "split_ws_from cur [] = (if cur = [] then [] else [rev cur])"
| "split_ws_from cur (c # cs) =
     (if isspace c then (if cur = [] then split_ws_from [] cs else rev cur # split_ws_from [] cs)
      else split_ws_from (c # cur) cs)"

definition split_ws :: "string \<Rightarrow> string list" where
  "split_ws s = split_ws_from [] s"

definition startswith :: "string \<Rightarrow> string \<Rightarrow> bool" where
  "startswith s p = (take (length p) s = p)"

text \<open>\<^verbatim>\<open>s.replace(old, new)\<close>: every occurrence, found left to right without overlap.\<close>

function replace_all :: "string \<Rightarrow> string \<Rightarrow> string \<Rightarrow> string" where
  "replace_all old new [] = []"
| "replace_all old new (c # cs) =
     (if old \<noteq> [] \<and> startswith (c # cs) old
      then new @ replace_all old new (drop (length old) (c # cs))
      else c # replace_all old new cs)"
  by pat_completeness auto
termination
  by (relation "measure (\<lambda>(old, new, s). length s)") (auto simp: Suc_le_eq intro: diff_less)

definition replace :: "string \<Rightarrow> string \<Rightarrow> string \<Rightarrow> string" where
  "replace s old new =
     (if old = [] then new @ concat (map (\<lambda>c. c # new) s) else replace_all old new s)"

text \<open>\<^verbatim>\<open>str(n)\<close> for an integer.\<close>

fun str_nat :: "nat \<Rightarrow> string" where
  "str_nat n = (if n < 10 then [''0123456789'' ! n]
                else str_nat (n div 10) @ [''0123456789'' ! (n mod 10)])"

definition str_int :: "int \<Rightarrow> string" where
  "str_int i = (if i < 0 then CHR ''-'' # str_nat (nat (- i)) else str_nat (nat i))"

section \<open>The regular-expression substitutions of scraper.py\<close>

text \<open>
  Each \<^verbatim>\<open>re.sub\<close> of the source is a function that scans the text from the left,
  replaces a match where one starts and continues behind it, as \<^verbatim>\<open>re.sub\<close> does.

  \<^verbatim>\<open>re.sub(r'\s+', ' ', text)\<close>: a maximal run of whitespace becomes one space.
\<close>

function sub_ws :: "string \<Rightarrow> string" where
  "sub_ws [] = []"
| "sub_ws (c # cs) = (if isspace c then CHR '' '' # sub_ws (dropWhile isspace cs) else c # sub_ws cs)"
  by pat_completeness auto
termination
  by (relation "measure length") (auto simp: le_imp_less_Suc length_dropWhile_le)

text \<open>
  \<^verbatim>\<open>re.sub(r'\n\s*\n+', '\n\n', text)\<close>: a match starts at a newline whose following run
  of whitespace \<open>w\<close> holds another newline, and it ends behind the last newline of \<open>w\<close>
  (the greedy \<^verbatim>\<open>\s*\<close> gives back what follows that newline).
\<close>

function sub_blank :: "string \<Rightarrow> string" where
  "sub_blank [] = []"
| "sub_blank (c # cs) =
     (let w = takeWhile isspace cs
      in if c = CHR 0x0A \<and> CHR 0x0A \<in> set w
         then CHR 0x0A # CHR 0x0A
                # sub_blank (rev (takeWhile (\<lambda>x. x \<noteq> CHR 0x0A) (rev w)) @ dropWhile isspace cs)
         else c # sub_blank cs)"
  by pat_completeness auto
termination
proof (relation "measure length")
  fix c :: char and cs w :: string
  assume w: "w = takeWhile isspace cs"
  have "length (takeWhile (\<lambda>x. x \<noteq> CHR 0x0A) (rev w)) \<le> length w"
    by (metis length_rev length_takeWhile_le)
  moreover have "length w + length (dropWhile isspace cs) = length cs"
    unfolding w by (metis length_append takeWhile_dropWhile_id)
  ultimately show "(rev (takeWhile (\<lambda>x. x \<noteq> CHR 0x0A) (rev w)) @ dropWhile isspace cs, c # cs)
      \<in> measure length"
    by simp
qed simp_all

text \<open>
  The patterns of \<^verbatim>\<open>common_patterns\<close> match a fixed number of characters: a pattern is
  a list of atoms, a literal character (compared without case, for
  \<^verbatim>\<open>flags=re.IGNORECASE\<close>) or \<^verbatim>\<open>\d\<close>.
\<close>

datatype re_atom = Lit char | Digit

fun atom_match :: "re_atom \<Rightarrow> char \<Rightarrow> bool" where
  "atom_match (Lit p) c = (lower c = lower p)"
| "atom_match Digit c = isdecimal c"

fun match_here :: "re_atom list \<Rightarrow> string \<Rightarrow> bool" where
  "match_here [] s = True"
| "match_here (a # as) [] = False"
| "match_here (a # as) (c # cs) = (atom_match a c \<and> match_here as cs)"

text \<open>\<^verbatim>\<open>re.sub(pattern, '', text, flags=re.IGNORECASE)\<close>\<close>

function sub_del :: "re_atom list \<Rightarrow> string \<Rightarrow> string" where
  "sub_del p [] = []"
| "sub_del p (c # cs) =
     (if p \<noteq> [] \<and> match_here p (c # cs) then sub_del p (drop (length p) (c # cs))
      else c # sub_del p cs)"
  by pat_completeness auto
termination
  by (relation "measure (\<lambda>(p, s). length s)") (auto simp: Suc_le_eq intro: diff_less)

text \<open>
  \<^verbatim>\<open>re.sub(r'!\[.*?\]\(.*?\)', '', markdown)\<close>. \<open>scan_to lit s\<close> is the lazy
  \<^verbatim>\<open>.*?\<close> followed by the literal \<open>lit\<close>: the text behind the first \<open>lit\<close> of the
  line, \<open>None\<close> when the line or the text ends first (\<^verbatim>\<open>.\<close> matches no newline).
\<close>

fun scan_to :: "string \<Rightarrow> string \<Rightarrow> string option" where
  "scan_to lit [] = None"
| "scan_to lit (c # cs) =
     (if startswith (c # cs) lit then Some (drop (length lit) (c # cs))
      else if c = CHR 0x0A then None
      else scan_to lit cs)"

definition match_image :: "string \<Rightarrow> string option" where
  "match_image s =
     (if startswith s ''!['' then
        (case scan_to '']('' (drop 2 s) of None \<Rightarrow> None | Some r \<Rightarrow> scan_to '')'' r)
      else None)"

lemma scan_to_length: "scan_to lit s = Some r \<Longrightarrow> length r \<le> length s"
  by (induction s) (auto split: if_splits)

lemma match_image_length: "match_image s = Some r \<Longrightarrow> length r < length s"
proof -
  assume m: "match_image s = Some r"
  then have "startswith s ''![''"
    by (simp add: match_image_def split: if_splits)
  then have "length (take (length ''!['') s) = length ''![''"
    unfolding startswith_def by (rule arg_cong)
  then have two: "2 \<le> length s" by simp
  from m obtain r1 where r1: "scan_to '']('' (drop 2 s) = Some r1" and r: "scan_to '')'' r1 = Some r"
    by (auto simp: match_image_def split: if_splits option.splits)
  have "length r \<le> length r1" using r by (rule scan_to_length)
  also have "\<dots> \<le> length (drop 2 s)" using r1 by (rule scan_to_length)
  finally show ?thesis using two by simp
qed

function sub_images :: "string \<Rightarrow> string" where
  "sub_images [] = []"
| "sub_images (c # cs) =
     (case match_image (c # cs) of
        Some rest \<Rightarrow> sub_images rest
      | None \<Rightarrow> c # sub_images cs)"
  by pat_completeness auto
termination
  by (relation "measure length") (auto dest: match_image_length)

section \<open>Resilient call executor (analyzer.py)\<close>

record PerplexityAnalyzer =
  api_key :: "string option"
  max_retries :: int
  retry_delay :: int

text \<open>
  What \<^verbatim>\<open>analyze\<close> does besides returning: the records it hands to the logger and the
  pauses of \<^verbatim>\<open>time.sleep\<close>, in the order they happen.
\<close>

datatype event = LogWarning string | LogError string | Sleep int

text \<open>\<^verbatim>\<open>_build_prompt\<close>, with the line breaks of the source's triple-quoted strings.\<close>

definition build_prompt :: "string \<Rightarrow> string \<Rightarrow> string" where
  "build_prompt content query_type =
     (if query_type = ''summary'' then
        ''Please provide a summary and key points for the following content.'' @ nl
        @ ''            '' @ nl
        @ ''Content:'' @ nl
        @ content @ nl
        @ nl
        @ ''Summary (approximately 300 characters):'' @ nl
        @ ''Key points (up to 5):'' @ nl
      else if query_type = ''analysis'' then
        ''Please provide a detailed analysis of the following content. Include main information, reliability assessment, additional related information, and different perspectives.'' @ nl
        @ nl
        @ ''Content:'' @ nl
        @ content @ nl
        @ nl
        @ ''Analysis:'' @ nl
        @ ''1. Summary of main information'' @ nl
        @ ''2. Assessment of information reliability'' @ nl
        @ ''3. Supplementary information (from web search)'' @ nl
        @ ''4. Different perspectives or considerations'' @ nl
        @ ''5. Related data or statistics (if available)'' @ nl
      else if query_type = ''custom'' then content
      else
        ''Please summarize the following content:'' @ nl
        @ nl
        @ content @ nl)"

text \<open>
  \<^verbatim>\<open>_call_api\<close> is the HTTP request to the external service. It is a parameter of the
  model: given the index of the attempt and the prompt it returns the text of the answer
  (\<open>Inr\<close>) or raises, \<open>Inl\<close> holding the \<^verbatim>\<open>str(e)\<close> of the exception. What
  \<^verbatim>\<open>_call_api\<close> logs on its own is not among the events below.
\<close>

type_synonym api_call = "nat \<Rightarrow> string \<Rightarrow> string + string"

text \<open>
  The loop \<^verbatim>\<open>for attempt in range(self.max_retries)\<close>, with \<open>remaining\<close> the number of
  iterations left. The result is \<open>Inr (Some result)\<close> for a returned answer, \<open>Inl msg\<close>
  for \<^verbatim>\<open>raise Exception(msg)\<close>, and \<open>Inr None\<close> when the range is exhausted without
  either, where the Python function returns \<^verbatim>\<open>None\<close>.
\<close>

fun retry_loop ::
  "PerplexityAnalyzer \<Rightarrow> api_call \<Rightarrow> string \<Rightarrow> nat \<Rightarrow> nat \<Rightarrow> event list \<times> (string + string option)"
where
  "retry_loop self call_api prompt attempt 0 = ([], Inr None)"
| "retry_loop self call_api prompt attempt (Suc remaining) =
     (case call_api attempt prompt of
        Inr result \<Rightarrow> ([], Inr (Some result))
      | Inl e \<Rightarrow>
          (let warning = LogWarning (''API call failed (attempt '' @ str_int (int attempt + 1) @ ''/''
                                      @ str_int (max_retries self) @ ''): '' @ e)
           in if int attempt < max_retries self - 1
              then (case retry_loop self call_api prompt (Suc attempt) remaining of
                      (events, r) \<Rightarrow> (warning # Sleep (retry_delay self) # events, r))
              else ([warning, LogError (''API call failed (max retries reached): '' @ e)],
                    Inl (''Perplexity API call error: '' @ e))))"

definition analyze ::
  "PerplexityAnalyzer \<Rightarrow> api_call \<Rightarrow> string \<Rightarrow> string \<Rightarrow> event list \<times> (string + string option)"
where
  "analyze self call_api content query_type =
     (if api_key self = None \<or> api_key self = Some []
      then ([], Inl ''Perplexity API key is not configured'')
      else retry_loop self call_api (build_prompt content query_type) 0 (nat (max_retries self)))"

text \<open>The log records among the events, and an operation that fails at every attempt.\<close>

fun is_log :: "event \<Rightarrow> bool" where
  "is_log (Sleep d) = False"
| "is_log ev = True"

fun is_warning_log :: "event \<Rightarrow> bool" where
  "is_warning_log (LogWarning m) = True"
| "is_warning_log ev = False"

fun is_error_log :: "event \<Rightarrow> bool" where
  "is_error_log (LogError m) = True"
| "is_error_log ev = False"

definition always_failing :: "string \<Rightarrow> api_call" where
  "always_failing msg attempt prompt = Inl msg"

definition always_answering :: "string \<Rightarrow> api_call" where
  "always_answering answer attempt prompt = Inr answer"

section \<open>Sliding-window rate limiter (rate_limiter.py)\<close>

text \<open>
  \<^verbatim>\<open>RateLimiter\<close> keeps, per client identifier, the list of the times of the admitted
  requests. \<^verbatim>\<open>time.time()\<close> is read once per call; it is the argument
  \<open>current_time\<close> of the model, a real number (exact arithmetic stands for the float
  subtraction and comparison of the source). The body of \<^verbatim>\<open>is_rate_limited\<close> runs
  under the lock, so one call is one atomic step on the state.
\<close>

record RateLimiter =
  limit :: int
  window :: int
  clients :: "string \<rightharpoonup> real list"

definition RateLimiter_init :: "int \<Rightarrow> int \<Rightarrow> RateLimiter" where
  "RateLimiter_init n w = \<lparr>limit = n, window = w, clients = Map.empty\<rparr>"

text \<open>The list stored for a client, \<open>[]\<close> for a client the dictionary does not hold.\<close>

definition entries_of :: "RateLimiter \<Rightarrow> string \<Rightarrow> real list" where
  "entries_of st client_id = (case clients st client_id of None \<Rightarrow> [] | Some ts \<Rightarrow> ts)"

text \<open>
  \<^verbatim>\<open>is_rate_limited\<close>: the result is \<open>True\<close> when the request is rejected. The entry of
  the client is created when missing, then replaced by its pruned list, and the current
  time is appended only on the admitting path.
\<close>

definition is_rate_limited :: "real \<Rightarrow> string \<Rightarrow> RateLimiter \<Rightarrow> bool \<times> RateLimiter" where
  "is_rate_limited current_time client_id st =
     (let pruned = filter (\<lambda>t. current_time - t < of_int (window st)) (entries_of st client_id)
      in if limit st \<le> int (length pruned)
         then (True, st\<lparr>clients := (clients st)(client_id \<mapsto> pruned)\<rparr>)
         else (False, st\<lparr>clients := (clients st)(client_id \<mapsto> pruned @ [current_time])\<rparr>))"

text \<open>
  A sequence of calls, each with the time it reads and its client; the results are
  the admission outcomes (\<open>True\<close> = allowed, the negation of \<^verbatim>\<open>is_rate_limited\<close>, as
  the decorator \<^verbatim>\<open>rate_limit\<close> uses it).
\<close>

fun admit_all :: "(real \<times> string) list \<Rightarrow> RateLimiter \<Rightarrow> bool list \<times> RateLimiter" where
  "admit_all [] st = ([], st)"
| "admit_all ((t, c) # calls) st =
     (case is_rate_limited t c st of
        (limited, st') \<Rightarrow> (case admit_all calls st' of (rs, st'') \<Rightarrow> ((\<not> limited) # rs, st'')))"

text \<open>No client holds more timestamps than the limit allows.\<close>

definition within_limit :: "RateLimiter \<Rightarrow> bool" where
  "within_limit st = (\<forall>c. int (length (entries_of st c)) \<le> limit st)"

section \<open>Content extractor (scraper.py)\<close>

subsection \<open>The text normalizer\<close>

definition common_patterns :: "re_atom list list" where
  "common_patterns =
     [map Lit ''Menu'', map Lit ''Search'', map Lit ''Home'', map Lit ''Contact'',
      map Lit ''About'', map Lit ''Privacy Policy'', map Lit ''Terms of Service'',
      [Lit (CHR 0xC2), Lit (CHR 0xA9), Lit CHR '' '', Digit, Digit, Digit, Digit],
      map Lit ''All Rights Reserved'', map Lit ''Copyright'']"

text \<open>\<^verbatim>\<open>_clean_text\<close>\<close>

definition clean_text :: "string \<Rightarrow> string" where
  "clean_text text =
     (let text1 = sub_ws text;
          text2 = sub_blank text1;
          text3 = foldl (\<lambda>t pattern. sub_del pattern t) text2 common_patterns;
          lines = split_on (CHR 0x0A) text3;
          cleaned_lines = filter (\<lambda>line. line \<noteq> []) (map strip lines)
      in join (nl @ nl) cleaned_lines)"

text \<open>A pattern matches somewhere in a text; a text without two spaces in a row.\<close>

fun occurs :: "re_atom list \<Rightarrow> string \<Rightarrow> bool" where
  "occurs p [] = match_here p []"
| "occurs p (c # cs) = (match_here p (c # cs) \<or> occurs p cs)"

fun no_double_space :: "string \<Rightarrow> bool" where
  "no_double_space (a # b # cs) = (\<not> (a = CHR '' '' \<and> b = CHR '' '') \<and> no_double_space (b # cs))"
| "no_double_space cs = True"

definition no_boilerplate :: "string \<Rightarrow> bool" where
  "no_boilerplate s = (\<forall>p \<in> set common_patterns. \<not> occurs p s)"

subsection \<open>The parsed document\<close>

text \<open>
  The tree that \<^verbatim>\<open>BeautifulSoup(html_content, 'html.parser')\<close> builds: a tag has a name,
  its attribute dictionary (an association list read with \<open>map_of\<close>) and its children.
  The leaves are the strings of the page, each of the class the library gives it:
  \<^verbatim>\<open>NavigableString\<close> for ordinary text, \<^verbatim>\<open>CData\<close>, \<^verbatim>\<open>Comment\<close>, \<^verbatim>\<open>Declaration\<close>,
  \<^verbatim>\<open>Doctype\<close> and \<^verbatim>\<open>ProcessingInstruction\<close> for the markup of those names, and
  \<^verbatim>\<open>Script\<close>, \<^verbatim>\<open>Stylesheet\<close>, \<^verbatim>\<open>TemplateString\<close>, \<^verbatim>\<open>RubyTextString\<close> and
  \<^verbatim>\<open>RubyParenthesisString\<close> for the text inside a \<^verbatim>\<open>script\<close>, \<^verbatim>\<open>style\<close>,
  \<^verbatim>\<open>template\<close>, \<^verbatim>\<open>rt\<close> or \<^verbatim>\<open>rp\<close> element. The \<^verbatim>\<open>soup\<close> object is the root tag,
  and the searches below look at its descendants, in document order.
\<close>

datatype page_element =
    NavigableString string
  | CData string
  | Comment string
  | Declaration string
  | Doctype string
  | ProcessingInstruction string
  | Script string
  | Stylesheet string
  | TemplateString string
  | RubyTextString string
  | RubyParenthesisString string
  | Tag string "(string \<times> string) list" "page_element list"

fun descendants :: "page_element \<Rightarrow> page_element list" where
  "descendants (Tag name attrs contents) = concat (map (\<lambda>c. c # descendants c) contents)"
| "descendants e = []"

fun is_tag :: "string \<Rightarrow> page_element \<Rightarrow> bool" where
  "is_tag n (Tag name attrs contents) = (name = n)"
| "is_tag n e = False"

text \<open>\<^verbatim>\<open>tag.get(key)\<close>\<close>

fun get :: "page_element \<Rightarrow> string \<Rightarrow> string option" where
  "get (Tag name attrs contents) key = map_of attrs key"
| "get e key = None"

text \<open>\<^verbatim>\<open>soup.find_all(names)\<close>\<close>

definition find_all :: "string list \<Rightarrow> page_element \<Rightarrow> page_element list" where
  "find_all names soup = filter (\<lambda>e. \<exists>n \<in> set names. is_tag n e) (descendants soup)"

text \<open>The text of a leaf.\<close>

fun string_of :: "page_element \<Rightarrow> string" where
  "string_of (NavigableString s) = s"
| "string_of (CData s) = s"
| "string_of (Comment s) = s"
| "string_of (Declaration s) = s"
| "string_of (Doctype s) = s"
| "string_of (ProcessingInstruction s) = s"
| "string_of (Script s) = s"
| "string_of (Stylesheet s) = s"
| "string_of (TemplateString s) = s"
| "string_of (RubyTextString s) = s"
| "string_of (RubyParenthesisString s) = s"
| "string_of (Tag name attrs contents) = []"

text \<open>
  The strings that \<^verbatim>\<open>get_text\<close> collects depend on the tag it is called on: the
  library gives each tag its \<^verbatim>\<open>interesting_string_types\<close>. For a \<^verbatim>\<open>script\<close>,
  \<^verbatim>\<open>style\<close>, \<^verbatim>\<open>template\<close>, \<^verbatim>\<open>rt\<close> or \<^verbatim>\<open>rp\<close> tag that is the one class of its own
  strings, for every other tag the classes \<^verbatim>\<open>NavigableString\<close> and \<^verbatim>\<open>CData\<close>; a
  string counts when its class is exactly one of them.
\<close>

definition string_containers :: "string list" where
  "string_containers = [''rt'', ''rp'', ''style'', ''script'', ''template'']"

fun is_interesting :: "string \<Rightarrow> page_element \<Rightarrow> bool" where
  "is_interesting name (NavigableString s) = (name \<notin> set string_containers)"
| "is_interesting name (CData s) = (name \<notin> set string_containers)"
| "is_interesting name (Script s) = (name = ''script'')"
| "is_interesting name (Stylesheet s) = (name = ''style'')"
| "is_interesting name (TemplateString s) = (name = ''template'')"
| "is_interesting name (RubyTextString s) = (name = ''rt'')"
| "is_interesting name (RubyParenthesisString s) = (name = ''rp'')"
| "is_interesting name e = False"

text \<open>
  \<^verbatim>\<open>tag.get_text(separator)\<close>; \<^verbatim>\<open>tag.text\<close> and \<^verbatim>\<open>tag.get_text()\<close> have the
  separator \<open>''''\<close>. The source calls it on tags only; on a string the library gives
  the string itself when it is ordinary text.
\<close>

fun get_text :: "string \<Rightarrow> page_element \<Rightarrow> string" where
  "get_text separator (Tag name attrs contents) =
     join separator
       (map string_of (filter (is_interesting name) (descendants (Tag name attrs contents))))"
| "get_text separator e = (if is_interesting [] e then string_of e else [])"

text \<open>The selector \<^verbatim>\<open>article, .article, .post, .content, main, #main, #content\<close>.\<close>

definition has_class :: "(string \<times> string) list \<Rightarrow> string \<Rightarrow> bool" where
  "has_class attrs c = (case map_of attrs ''class'' of None \<Rightarrow> False | Some v \<Rightarrow> c \<in> set (split_ws v))"

fun is_container :: "page_element \<Rightarrow> bool" where
  "is_container (Tag name attrs contents) =
     (name = ''article'' \<or> has_class attrs ''article'' \<or> has_class attrs ''post''
      \<or> has_class attrs ''content'' \<or> name = ''main''
      \<or> map_of attrs ''id'' = Some ''main'' \<or> map_of attrs ''id'' = Some ''content'')"
| "is_container e = False"

definition select_containers :: "page_element \<Rightarrow> page_element list" where
  "select_containers soup = filter is_container (descendants soup)"

subsection \<open>Main content: the four methods\<close>

text \<open>Method 2: the paragraphs longer than 40 characters, joined by a blank line.\<close>

definition paragraph_content :: "page_element \<Rightarrow> string" where
  "paragraph_content soup =
     join (nl @ nl)
       (filter (\<lambda>t. 40 < length t) (map (\<lambda>p. strip (get_text [] p)) (find_all [''p''] soup)))"

text \<open>
  Method 3: the pairs \<^verbatim>\<open>(tag, text)\<close> of the blocks longer than 200 characters, and the
  list after \<^verbatim>\<open>text_blocks.sort(key=lambda x: len(x[1]), reverse=True)\<close>, a stable sort.
\<close>

definition text_blocks :: "page_element \<Rightarrow> (page_element \<times> string) list" where
  "text_blocks soup =
     filter (\<lambda>(tag, text). 200 < length text)
       (map (\<lambda>tag. (tag, strip (get_text [] tag))) (find_all [''div'', ''section''] soup))"

definition sorted_blocks :: "page_element \<Rightarrow> (page_element \<times> string) list" where
  "sorted_blocks soup = sort_key (\<lambda>(tag, text). - int (length text)) (text_blocks soup)"

text \<open>
  Method 4 calls \<^verbatim>\<open>self.h2t.handle(str(soup))\<close>, the html2text library. It is a
  parameter: \<open>Inr\<close> the Markdown text, \<open>Inl\<close> the message of an exception it raises.
\<close>

type_synonym markdown_converter = "page_element \<Rightarrow> string + string"

definition markdown_content :: "markdown_converter \<Rightarrow> page_element \<Rightarrow> string + string" where
  "markdown_content h2t_handle soup =
     (case h2t_handle soup of
        Inl e \<Rightarrow> Inl e
      | Inr markdown \<Rightarrow> Inr (sub_blank (sub_images markdown)))"

text \<open>\<^verbatim>\<open>_extract_article_content\<close>\<close>

definition extract_article_content :: "markdown_converter \<Rightarrow> page_element \<Rightarrow> string + string" where
  "extract_article_content h2t_handle soup =
     (case select_containers soup of
        container # others \<Rightarrow> Inr (get_text nl container)
      | [] \<Rightarrow>
          if 3 < length (find_all [''p''] soup) \<and> 500 < length (paragraph_content soup)
          then Inr (paragraph_content soup)
          else (case sorted_blocks soup of
                  block # others \<Rightarrow> Inr (snd block)
                | [] \<Rightarrow> markdown_content h2t_handle soup))"

subsection \<open>Title, description and Open-Graph data\<close>



text \<open>\<^verbatim>\<open>soup.find_all('meta', property=re.compile('^og:'))\<close>\<close>

definition og_metas :: "page_element \<Rightarrow> page_element list" where
  "og_metas soup =
     filter (\<lambda>e. is_tag ''meta'' e \<and>
                  (case get e ''property'' of None \<Rightarrow> False | Some p \<Rightarrow> startswith p ''og:''))
       (descendants soup)"

text \<open>The key and value that one \<^verbatim>\<open>meta\<close> tag adds to \<^verbatim>\<open>og_data\<close>, if it adds one.\<close>

definition og_entry :: "page_element \<Rightarrow> (string \<times> string) option" where
  "og_entry meta =
     (let property_name = replace (case get meta ''property'' of None \<Rightarrow> [] | Some p \<Rightarrow> p) ''og:'' []
      in case get meta ''content'' of
           None \<Rightarrow> None
         | Some c \<Rightarrow> if property_name \<noteq> [] \<and> c \<noteq> [] then Some (property_name, strip c) else None)"

definition og_store :: "(string \<rightharpoonup> string) \<Rightarrow> page_element \<Rightarrow> (string \<rightharpoonup> string)" where
  "og_store og_data meta = (case og_entry meta of None \<Rightarrow> og_data | Some (k, v) \<Rightarrow> og_data(k \<mapsto> v))"

definition og_data_of :: "page_element \<Rightarrow> (string \<rightharpoonup> string)" where
  "og_data_of soup = foldl og_store Map.empty (og_metas soup)"

subsection \<open>parse_content\<close>

text \<open>
  The constructor \<^verbatim>\<open>BeautifulSoup(html_content, 'html.parser')\<close> runs the standard
  library's \<^verbatim>\<open>html.parser\<close> over the markup. The tree it builds is a parameter,
  \<open>build_tree\<close>: \<open>Inr\<close> the tree, \<open>Inl\<close> the class name of an exception raised on the
  way. One rule of the parser is written out, its scan of a marked section
  (\<^verbatim>\<open>parse_marked_section\<close> and \<^verbatim>\<open>_scan_name\<close>) for a markup that begins with one: behind
  \<^verbatim>\<open><![\<close> the scanner reads a name, \<^verbatim>\<open>[a-zA-Z][-_.a-zA-Z0-9]*\s*\<close>. When the name is
  missing, or when it does not reach the end of the input and is, in lower case, none of
  the status keywords, the scanner raises \<^verbatim>\<open>AssertionError\<close>, which the library turns
  into \<^verbatim>\<open>ParserRejectedMarkup\<close>.
\<close>

definition ascii_letter :: "char \<Rightarrow> bool" where
  "ascii_letter c = (c \<in> set ''abcdefghijklmnopqrstuvwxyzABCDEFGHIJKLMNOPQRSTUVWXYZ'')"

definition declname_char :: "char \<Rightarrow> bool" where
  "declname_char c = (ascii_letter c \<or> isdecimal c \<or> c \<in> set ''-_.'')"

definition status_keywords :: "string list" where
  "status_keywords =
     [''temp'', ''cdata'', ''ignore'', ''include'', ''rcdata'', ''if'', ''else'', ''endif'']"

definition marked_section_rejected :: "string \<Rightarrow> bool" where
  "marked_section_rejected rawdata =
     (startswith rawdata ''<!['' \<and>
      (case drop 3 rawdata of
         [] \<Rightarrow> False
       | c # cs \<Rightarrow>
           if ascii_letter c
           then dropWhile isspace (dropWhile declname_char (c # cs)) \<noteq> []
                \<and> map lower (takeWhile declname_char (c # cs)) \<notin> set status_keywords
           else True))"



text \<open>
  \<^verbatim>\<open>parse_content\<close> has no \<^verbatim>\<open>try\<close>, so an exception of a library call is the outcome
  of the call.
\<close>

record PageContent =
  title :: string
  description :: string
  og_data :: "string \<rightharpoonup> string"
  content :: string


subsection \<open>Library behaviours and documents used as examples\<close>


definition converter_returning :: "string \<Rightarrow> markdown_converter" where
  "converter_returning markdown soup = Inr markdown"

definition converter_failing :: "string \<Rightarrow> markdown_converter" where
  "converter_failing msg soup = Inl msg"

text \<open>
  A page whose first element that matches the selector is a \<^verbatim>\<open>script\<close> element with
  the id \<^verbatim>\<open>main\<close>, in front of an \<^verbatim>\<open>article\<close>.
\<close>

definition script_container :: page_element where
  "script_container =
     Tag ''[document]'' []
       [Tag ''html'' []
          [Tag ''body'' []
             [Tag ''script'' [(''id'', ''main'')] [Script ''boot()''],
              Tag ''article'' [] [NavigableString ''Text'', Comment ''note'']]]]"

text \<open>A text occurs inside another.\<close>

fun contains :: "string \<Rightarrow> string \<Rightarrow> bool" where
  "contains [] sub = startswith [] sub"
| "contains (c # cs) sub = (startswith (c # cs) sub \<or> contains cs sub)"

text \<open>A page whose body is five paragraphs of fifty characters each.\<close>

definition five_paragraphs :: page_element where
  "five_paragraphs =
     Tag ''[document]'' []
       [Tag ''html'' []
          [Tag ''body'' []
             [Tag ''p'' [] [NavigableString (replicate 50 CHR ''a'')],
              Tag ''p'' [] [NavigableString (replicate 50 CHR ''b'')],
              Tag ''p'' [] [NavigableString (replicate 50 CHR ''c'')],
              Tag ''p'' [] [NavigableString (replicate 50 CHR ''d'')],
              Tag ''p'' [] [NavigableString (replicate 50 CHR ''e'')]]]]"

text \<open>A page whose only block is a \<^verbatim>\<open>div\<close> of exactly 200 characters.\<close>

definition block_of_200 :: page_element where
  "block_of_200 =
     Tag ''[document]'' []
       [Tag ''html'' []
          [Tag ''body'' [] [Tag ''div'' [] [NavigableString (replicate 200 CHR ''x'')]]]]"

text \<open>
  A page with two \<^verbatim>\<open>div\<close> blocks of 250 and 300 characters in front of an
  \<^verbatim>\<open>article\<close> element.
\<close>

definition article_after_blocks :: page_element where
  "article_after_blocks =
     Tag ''[document]'' []
       [Tag ''html'' []
          [Tag ''body'' []
             [Tag ''div'' [] [NavigableString (replicate 250 CHR ''x'')],
              Tag ''div'' [] [NavigableString (replicate 300 CHR ''y'')],
              Tag ''article'' []
                [Tag ''h1'' [] [NavigableString ''News''],
                 Tag ''p'' [] [NavigableString ''Short text.'']]]]]"

text \<open>Two \<^verbatim>\<open>og:title\<close> tags, and a pair whose second tag has an empty content.\<close>

definition og_title_twice :: page_element where
  "og_title_twice =
     Tag ''[document]'' []
       [Tag ''head'' []
          [Tag ''meta'' [(''property'', ''og:title''), (''content'', ''A'')] [],
           Tag ''meta'' [(''property'', ''og:title''), (''content'', ''B'')] []]]"

definition og_title_then_empty :: page_element where
  "og_title_then_empty =
     Tag ''[document]'' []
       [Tag ''head'' []
          [Tag ''meta'' [(''property'', ''og:title''), (''content'', ''A'')] [],
           Tag ''meta'' [(''property'', ''og:title''), (''content'', '''')] []]]"

text \<open>
  Two \<^verbatim>\<open>div\<close> blocks of 250 characters each, followed by a \<^verbatim>\<open>section\<close> of 210.
\<close>

definition equal_blocks :: page_element where
  "equal_blocks =
     Tag ''[document]'' []
       [Tag ''html'' []
          [Tag ''body'' []
             [Tag ''div'' [] [NavigableString (replicate 250 CHR ''x'')],
              Tag ''div'' [] [NavigableString (replicate 250 CHR ''y'')],
              Tag ''section'' [] [NavigableString (replicate 210 CHR ''z'')]]]]"

section \<open>Properties of the rate limiter\<close>

lemma entries_of_upd:
  "entries_of (st\<lparr>clients := (clients st)(c \<mapsto> ts)\<rparr>) c' = (if c' = c then ts else entries_of st c')"
  by (simp add: entries_of_def)

lemma is_rate_limited_entries:
  "entries_of (snd (is_rate_limited t c st)) c' =
     (if c' = c
      then (let pruned = filter (\<lambda>x. t - x < of_int (window st)) (entries_of st c)
            in if limit st \<le> int (length pruned) then pruned else pruned @ [t])
      else entries_of st c')"
  by (simp add: is_rate_limited_def Let_def entries_of_upd)

lemma is_rate_limited_params:
  "limit (snd (is_rate_limited t c st)) = limit st"
  "window (snd (is_rate_limited t c st)) = window st"
  by (simp_all add: is_rate_limited_def Let_def)

lemma is_rate_limited_result:
  "fst (is_rate_limited t c st) =
     (limit st \<le> int (length (filter (\<lambda>x. t - x < of_int (window st)) (entries_of st c))))"
  by (simp add: is_rate_limited_def Let_def)

lemma within_limit_step:
  assumes "within_limit st"
  shows "within_limit (snd (is_rate_limited t c st))"
proof -
  have le: "int (length (filter P (entries_of st c'))) \<le> limit st" for P c'
  proof -
    have "length (filter P (entries_of st c')) \<le> length (entries_of st c')"
      by (rule length_filter_le)
    moreover have "int (length (entries_of st c')) \<le> limit st"
      using assms by (simp add: within_limit_def)
    ultimately show ?thesis by linarith
  qed
  show ?thesis
    unfolding within_limit_def
  proof
    fix c'
    show "int (length (entries_of (snd (is_rate_limited t c st)) c'))
            \<le> limit (snd (is_rate_limited t c st))"
      using le [of "\<lambda>x. t - x < of_int (window st)" c] assms
      by (auto simp: is_rate_limited_entries is_rate_limited_params Let_def within_limit_def)
  qed
qed

lemma within_limit_init: "0 \<le> n \<Longrightarrow> within_limit (RateLimiter_init n w)"
  by (simp add: within_limit_def RateLimiter_init_def entries_of_def)

lemma within_limit_admit_all:
  "within_limit st \<Longrightarrow> within_limit (snd (admit_all calls st))"
proof (induction calls arbitrary: st)
  case Nil
  then show ?case by simp
next
  case (Cons call calls)
  obtain t c where call: "call = (t, c)" by (cases call)
  have "within_limit (snd (is_rate_limited t c st))"
    using Cons.prems by (rule within_limit_step)
  from Cons.IH [OF this] show ?case
    by (auto simp: call split: prod.splits)
qed

lemma rejected_keeps_entries:
  assumes inv: "int (length (entries_of st c)) \<le> limit st"
    and rej: "fst (is_rate_limited t c st)"
  shows "entries_of (snd (is_rate_limited t c st)) c = entries_of st c"
proof -
  let ?P = "\<lambda>x. t - x < of_int (window st)"
  have "limit st \<le> int (length (filter ?P (entries_of st c)))"
    using rej by (simp add: is_rate_limited_result)
  with inv have "length (filter ?P (entries_of st c)) = length (entries_of st c)"
    using length_filter_le [of ?P "entries_of st c"] by linarith
  then have "filter ?P (entries_of st c) = entries_of st c"
    by (metis filter_True length_filter_less less_irrefl)
  then show ?thesis
    using rej by (simp add: is_rate_limited_entries is_rate_limited_result Let_def)
qed

lemma admit_all_Cons:
  "admit_all ((t, c) # calls) st =
     ((\<not> fst (is_rate_limited t c st)) # fst (admit_all calls (snd (is_rate_limited t c st))),
      snd (admit_all calls (snd (is_rate_limited t c st))))"
  by (simp split: prod.splits)

lemma three_then_one:
  assumes "limit st = 2" "window st = 10" "entries_of st c = []"
    and "t1 \<le> t2" "t2 \<le> t3" "t3 < t1 + 1" "t1 + 10 \<le> t4"
  shows "fst (admit_all [(t1, c), (t2, c), (t3, c), (t4, c)] st) = [True, True, False, True]"
proof -
  define s1 where "s1 = snd (is_rate_limited t1 c st)"
  define s2 where "s2 = snd (is_rate_limited t2 c s1)"
  define s3 where "s3 = snd (is_rate_limited t3 c s2)"
  have p1: "limit s1 = 2" "window s1 = 10" "limit s2 = 2" "window s2 = 10" "limit s3 = 2" "window s3 = 10"
    using assms(1,2) by (simp_all add: s1_def s2_def s3_def is_rate_limited_params)
  have r1: "\<not> fst (is_rate_limited t1 c st)"
    using assms by (simp add: is_rate_limited_result)
  have e1: "entries_of s1 c = [t1]"
    using assms by (simp add: s1_def is_rate_limited_entries)
  have r2: "\<not> fst (is_rate_limited t2 c s1)"
    using assms p1 e1 by (simp add: is_rate_limited_result)
  have e2: "entries_of s2 c = [t1, t2]"
    using assms p1 e1 by (simp add: s2_def is_rate_limited_entries)
  have r3: "fst (is_rate_limited t3 c s2)"
    using assms p1 e2 by (simp add: is_rate_limited_result)
  have e3: "entries_of s3 c = [t1, t2]"
    using assms p1 e2 by (simp add: s3_def is_rate_limited_entries)
  have r4: "\<not> fst (is_rate_limited t4 c s3)"
    using assms p1 e3 by (simp add: is_rate_limited_result)
  show ?thesis
    using r1 r2 r3 r4 by (simp add: s1_def s2_def s3_def admit_all_Cons del: admit_all.simps(2))
qed

text \<open>
  Claim C2. Every call prunes the client's timestamps to those less than \<open>window\<close>
  seconds old. When the pruned count reaches the limit the call rejects and stores the
  pruned list without the attempt; otherwise it stores the pruned list with the current
  time appended and admits. A rejection in a state where the client holds at most
  \<open>limit\<close> timestamps leaves the client's sequence as it was. With limit 2 and window 10,
  three calls of a fresh client within one second give allowed, allowed, rejected, and a
  fourth call ten seconds or more after the first is allowed.
\<close>

theorem is_rate_limited_admit:
  "let pruned = filter (\<lambda>x. now - x < of_int (window st)) (entries_of st c);
       r = is_rate_limited now c st
   in (fst r \<longleftrightarrow> limit st \<le> int (length pruned))
    \<and> entries_of (snd r) c = (if fst r then pruned else pruned @ [now])
    \<and> (fst r \<and> int (length (entries_of st c)) \<le> limit st
         \<longrightarrow> entries_of (snd r) c = entries_of st c)
    \<and> (limit st = 2 \<and> window st = 10 \<and> entries_of st c = []
         \<and> t1 \<le> t2 \<and> t2 \<le> t3 \<and> t3 < t1 + 1 \<and> t1 + 10 \<le> t4
         \<longrightarrow> fst (admit_all [(t1, c), (t2, c), (t3, c), (t4, c)] st) = [True, True, False, True])"
  unfolding Let_def
proof (intro conjI impI)
  show "fst (is_rate_limited now c st)
          = (limit st \<le> int (length (filter (\<lambda>x. now - x < of_int (window st)) (entries_of st c))))"
    by (rule is_rate_limited_result)
next
  show "entries_of (snd (is_rate_limited now c st)) c =
          (if fst (is_rate_limited now c st)
           then filter (\<lambda>x. now - x < of_int (window st)) (entries_of st c)
           else filter (\<lambda>x. now - x < of_int (window st)) (entries_of st c) @ [now])"
    by (simp add: is_rate_limited_entries is_rate_limited_result Let_def)
next
  assume "fst (is_rate_limited now c st) \<and> int (length (entries_of st c)) \<le> limit st"
  then show "entries_of (snd (is_rate_limited now c st)) c = entries_of st c"
    by (simp add: rejected_keeps_entries)
next
  assume "limit st = 2 \<and> window st = 10 \<and> entries_of st c = []
         \<and> t1 \<le> t2 \<and> t2 \<le> t3 \<and> t3 < t1 + 1 \<and> t1 + 10 \<le> t4"
  then show "fst (admit_all [(t1, c), (t2, c), (t3, c), (t4, c)] st) = [True, True, False, True]"
    by (intro three_then_one) simp_all
qed

theorem is_rate_limited_admit_witness:
  "fst (admit_all [(0, ''10.0.0.1''), (1/4, ''10.0.0.1''), (1/2, ''10.0.0.1''), (11, ''10.0.0.1'')]
         (RateLimiter_init 2 10)) = [True, True, False, True]
   \<and> fst (is_rate_limited (1/2) ''10.0.0.1''
            \<lparr>limit = 2, window = 10, clients = [''10.0.0.1'' \<mapsto> [0, 1/4]]\<rparr>)
   \<and> entries_of (snd (is_rate_limited (1/2) ''10.0.0.1''
            \<lparr>limit = 2, window = 10, clients = [''10.0.0.1'' \<mapsto> [0, 1/4]]\<rparr>)) ''10.0.0.1'' = [0, 1/4]"
  using is_rate_limited_admit [of 0 "RateLimiter_init 2 10" "''10.0.0.1''" 0 "1/4" "1/2" 11]
    is_rate_limited_admit [of "1/2" "\<lparr>limit = 2, window = 10, clients = [''10.0.0.1'' \<mapsto> [0, 1/4]]\<rparr>"
       "''10.0.0.1''" 0 0 0 0]
  by (simp add: Let_def RateLimiter_init_def entries_of_def del: admit_all.simps)

section \<open>Properties of the resilient call executor\<close>

lemma str_int_small: "str_int 1 = ''1''" "str_int 2 = ''2''" "str_int 3 = ''3''"
  by (simp_all add: str_int_def)

lemma retry_loop_three_failures:
  assumes "max_retries self = 3"
    and "call_api 0 prompt = Inl e1" "call_api 1 prompt = Inl e2" "call_api 2 prompt = Inl e3"
  shows "retry_loop self call_api prompt 0 3 =
     ([LogWarning (''API call failed (attempt 1/3): '' @ e1), Sleep (retry_delay self),
       LogWarning (''API call failed (attempt 2/3): '' @ e2), Sleep (retry_delay self),
       LogWarning (''API call failed (attempt 3/3): '' @ e3),
       LogError (''API call failed (max retries reached): '' @ e3)],
      Inl (''Perplexity API call error: '' @ e3))"
proof -
  have three: "(3::nat) = Suc (Suc (Suc 0))" by simp
  have c1: "call_api (Suc 0) prompt = Inl e2" using assms(3) by simp
  have c2: "call_api (Suc (Suc 0)) prompt = Inl e3" using assms(4) by (simp add: numeral_2_eq_2)
  show ?thesis
    unfolding three using assms(1,2) c1 c2 by (simp add: str_int_small Let_def)
qed

text \<open>
  Claim C3, as amended. With three attempts allowed and an operation that fails at each,
  \<^verbatim>\<open>analyze\<close> logs one warning per failed attempt, each before the pause or the end that
  follows it, then one further record of level error, "max retries reached", for the last
  failure: four log records, three warnings and one terminal record. It ends by raising
  the exception that carries the message of the last failure.
\<close>

theorem analyze_always_failing:
  assumes "api_key self = Some key" and "key \<noteq> []" and "max_retries self = 3"
    and "call_api 0 (build_prompt text query_type) = Inl e1"
    and "call_api 1 (build_prompt text query_type) = Inl e2"
    and "call_api 2 (build_prompt text query_type) = Inl e3"
  shows "analyze self call_api text query_type =
     ([LogWarning (''API call failed (attempt 1/3): '' @ e1), Sleep (retry_delay self),
       LogWarning (''API call failed (attempt 2/3): '' @ e2), Sleep (retry_delay self),
       LogWarning (''API call failed (attempt 3/3): '' @ e3),
       LogError (''API call failed (max retries reached): '' @ e3)],
      Inl (''Perplexity API call error: '' @ e3))
    \<and> length (filter is_log (fst (analyze self call_api text query_type))) = 4
    \<and> length (filter is_warning_log (fst (analyze self call_api text query_type))) = 3
    \<and> filter is_error_log (fst (analyze self call_api text query_type))
         = [LogError (''API call failed (max retries reached): '' @ e3)]"
proof -
  have "analyze self call_api text query_type
          = retry_loop self call_api (build_prompt text query_type) 0 3"
    using assms(1-3) by (simp add: analyze_def)
  then show ?thesis
    using retry_loop_three_failures [of self call_api "build_prompt text query_type" e1 e2 e3]
      assms(3-6)
    by simp
qed

theorem analyze_always_failing_witness:
  "analyze \<lparr>api_key = Some ''key'', max_retries = 3, retry_delay = 2\<rparr>
       (always_failing ''timeout'') ''some text'' ''summary'' =
     ([LogWarning ''API call failed (attempt 1/3): timeout'', Sleep 2,
       LogWarning ''API call failed (attempt 2/3): timeout'', Sleep 2,
       LogWarning ''API call failed (attempt 3/3): timeout'',
       LogError ''API call failed (max retries reached): timeout''],
      Inl ''Perplexity API call error: timeout'')"
  using analyze_always_failing [of "\<lparr>api_key = Some ''key'', max_retries = 3, retry_delay = 2\<rparr>"
      "''key''" "always_failing ''timeout''" "''some text''" "''summary''"
      "''timeout''" "''timeout''" "''timeout''"]
  by (simp add: always_failing_def)

text \<open>
  Claim C3 as stated fails: the failing call with three attempts leaves four log records,
  not three, and the one marked "max retries reached" is none of the three warnings.
\<close>

theorem analyze_always_failing_four_logs:
  "filter is_log (fst (analyze \<lparr>api_key = Some ''key'', max_retries = 3, retry_delay = 2\<rparr>
                         (always_failing ''timeout'') ''some text'' ''summary''))
     = [LogWarning ''API call failed (attempt 1/3): timeout'',
        LogWarning ''API call failed (attempt 2/3): timeout'',
        LogWarning ''API call failed (attempt 3/3): timeout'',
        LogError ''API call failed (max retries reached): timeout'']
   \<and> length (filter is_log (fst (analyze \<lparr>api_key = Some ''key'', max_retries = 3, retry_delay = 2\<rparr>
                         (always_failing ''timeout'') ''some text'' ''summary''))) \<noteq> 3"
  by (simp add: analyze_def always_failing_def str_int_small Let_def numeral_3_eq_3)

text \<open>
  Claim C10. A query type other than "summary", "analysis" and "custom" is not rejected:
  the prompt is the default one, "Please summarize the following content:" followed by the
  content, and \<^verbatim>\<open>analyze\<close> runs its attempts with that prompt as for any other call; an
  answer of the first attempt is returned.
\<close>

theorem analyze_unknown_query_type:
  assumes "query_type \<notin> {''summary'', ''analysis'', ''custom''}"
  shows "build_prompt text query_type
           = ''Please summarize the following content:'' @ nl @ nl @ text @ nl
    \<and> analyze self call_api text query_type =
        (if api_key self = None \<or> api_key self = Some []
         then ([], Inl ''Perplexity API key is not configured'')
         else retry_loop self call_api
                (''Please summarize the following content:'' @ nl @ nl @ text @ nl)
                0 (nat (max_retries self)))
    \<and> (api_key self = Some key \<and> key \<noteq> [] \<and> 0 < max_retries self
        \<and> call_api 0 (''Please summarize the following content:'' @ nl @ nl @ text @ nl) = Inr answer
        \<longrightarrow> analyze self call_api text query_type = ([], Inr (Some answer)))"
proof -
  have p: "build_prompt text query_type
             = ''Please summarize the following content:'' @ nl @ nl @ text @ nl"
    using assms by (simp add: build_prompt_def)
  have "analyze self call_api text query_type = ([], Inr (Some answer))"
    if h: "api_key self = Some key" "key \<noteq> []" "0 < max_retries self"
      "call_api 0 (''Please summarize the following content:'' @ nl @ nl @ text @ nl) = Inr answer"
  proof -
    obtain k where k: "nat (max_retries self) = Suc k"
      using h(3) by (cases "nat (max_retries self)") auto
    show ?thesis
      using h(1,2,4) by (simp add: analyze_def p k)
  qed
  then show ?thesis
    using p by (auto simp: analyze_def)
qed

theorem analyze_unknown_query_type_witness:
  "''translate'' \<notin> {''summary'', ''analysis'', ''custom''}
   \<and> build_prompt ''some text'' ''translate''
        = ''Please summarize the following content:'' @ nl @ nl @ ''some text'' @ nl
   \<and> analyze \<lparr>api_key = Some ''key'', max_retries = 3, retry_delay = 2\<rparr>
        (always_answering ''an answer'') ''some text'' ''translate'' = ([], Inr (Some ''an answer''))"
proof -
  let ?self = "\<lparr>api_key = Some ''key'', max_retries = 3, retry_delay = 2\<rparr>"
  let ?prompt = "''Please summarize the following content:'' @ nl @ nl @ ''some text'' @ nl"
  have q: "''translate'' \<notin> {''summary'', ''analysis'', ''custom''}" by simp
  have pre: "api_key ?self = Some ''key'' \<and> ''key'' \<noteq> [] \<and> 0 < max_retries ?self
      \<and> always_answering ''an answer'' 0 ?prompt = Inr ''an answer''"
    by (simp add: always_answering_def)
  from analyze_unknown_query_type [OF q, of "''some text''" ?self "always_answering ''an answer''"
      "''key''" "''an answer''"] pre q
  show ?thesis by blast
qed

section \<open>Properties of the text normalizer\<close>

lemma isspace_newline: "isspace (CHR 0x0A)"
  by (simp add: isspace_def)

lemma sub_ws_only_space: "c \<in> set (sub_ws s) \<Longrightarrow> isspace c \<Longrightarrow> c = CHR '' ''"
  by (induction s rule: sub_ws.induct) (auto split: if_splits)

lemma sub_ws_no_newline: "CHR 0x0A \<notin> set (sub_ws s)"
  using sub_ws_only_space [of "CHR 0x0A" s] isspace_newline by auto

lemma sub_blank_no_newline: "CHR 0x0A \<notin> set s \<Longrightarrow> sub_blank s = s"
  by (induction s) (auto simp: Let_def)

text \<open>
  Claim C9. In the normalizer the second substitution changes nothing: for every text,
  collapsing blank lines after collapsing whitespace gives what collapsing whitespace alone
  gives, since the first substitution leaves no newline.
\<close>

theorem sub_blank_after_sub_ws: "sub_blank (sub_ws t) = sub_ws t"
  by (rule sub_blank_no_newline) (rule sub_ws_no_newline)

lemma set_sub_del: "set (sub_del p s) \<subseteq> set s"
proof (induction p s rule: sub_del.induct)
  case (1 p)
  then show ?case by simp
next
  case (2 p c cs)
  show ?case
  proof (cases "p \<noteq> [] \<and> match_here p (c # cs)")
    case True
    then have "set (sub_del p (c # cs)) \<subseteq> set (drop (length p) (c # cs))"
      using 2 by simp
    also have "\<dots> \<subseteq> set (c # cs)" by (rule set_drop_subset)
    finally show ?thesis .
  next
    case False
    then show ?thesis using 2 by auto
  qed
qed

lemma set_foldl_sub_del: "set (foldl (\<lambda>t p. sub_del p t) s ps) \<subseteq> set s"
proof (induction ps arbitrary: s)
  case Nil
  then show ?case by simp
next
  case (Cons p ps)
  have "set (foldl (\<lambda>t p. sub_del p t) (sub_del p s) ps) \<subseteq> set (sub_del p s)"
    by (rule Cons.IH)
  with set_sub_del [of p s] show ?case by auto
qed

lemma split_on_no_sep: "sep \<notin> set s \<Longrightarrow> split_on sep s = [s]"
  by (induction s) auto

lemma set_strip: "set (strip s) \<subseteq> set s"
proof -
  have "set (strip s) = set (dropWhile isspace (rev (dropWhile isspace s)))"
    by (simp add: strip_def)
  also have "\<dots> \<subseteq> set (rev (dropWhile isspace s))"
    by (meson set_dropWhileD subsetI)
  also have "\<dots> \<subseteq> set s"
    by (auto dest: set_dropWhileD)
  finally show ?thesis .
qed

lemma rdrop_prefix: "\<exists>zs. u = rev (dropWhile P (rev u)) @ zs"
proof -
  have "rev u = takeWhile P (rev u) @ dropWhile P (rev u)" by simp
  then have "u = rev (takeWhile P (rev u) @ dropWhile P (rev u))" by (metis rev_rev_ident)
  then show ?thesis by (metis rev_append)
qed

lemma strip_fixed:
  assumes "s = [] \<or> (\<not> isspace (hd s) \<and> \<not> isspace (last s))"
  shows "strip s = s"
proof (cases "s = []")
  case True
  then show ?thesis by (simp add: strip_def)
next
  case False
  with assms have h: "\<not> isspace (hd s)" and l: "\<not> isspace (last s)" by auto
  from False h have "dropWhile isspace s = s" by (cases s) auto
  moreover from False l have "dropWhile isspace (rev s) = rev s"
    by (cases "rev s") (auto simp: last_rev [symmetric] hd_rev)
  ultimately show ?thesis by (simp add: strip_def)
qed

lemma strip_ends: "strip s = [] \<or> (\<not> isspace (hd (strip s)) \<and> \<not> isspace (last (strip s)))"
proof (cases "strip s = []")
  case True
  then show ?thesis by simp
next
  case False
  let ?u = "dropWhile isspace s"
  let ?r = "dropWhile isspace (rev ?u)"
  have s: "strip s = rev ?r" by (simp add: strip_def)
  with False have r: "?r \<noteq> []" by simp
  then have "\<not> isspace (hd ?r)" by (rule hd_dropWhile)
  then have last: "\<not> isspace (last (strip s))"
    using r by (simp add: s last_rev)
  obtain zs where u: "?u = strip s @ zs"
    using rdrop_prefix [of ?u isspace] by (auto simp: s)
  with False have "?u \<noteq> []" by auto
  then have "\<not> isspace (hd ?u)" by (rule hd_dropWhile)
  moreover have "hd ?u = hd (strip s)"
    using u False by (metis hd_append2)
  ultimately show ?thesis using last by simp
qed

lemma strip_strip: "strip (strip s) = strip s"
  by (rule strip_fixed) (rule strip_ends)

lemma clean_text_eq:
  "clean_text t = strip (foldl (\<lambda>t p. sub_del p t) (sub_ws t) common_patterns)"
proof -
  let ?t3 = "foldl (\<lambda>t p. sub_del p t) (sub_ws t) common_patterns"
  have "CHR 0x0A \<notin> set ?t3"
    using set_foldl_sub_del [of "sub_ws t" common_patterns] sub_ws_no_newline [of t] by auto
  then have "split_on (CHR 0x0A) ?t3 = [?t3]" by (rule split_on_no_sep)
  then show ?thesis
    by (simp add: clean_text_def sub_blank_no_newline sub_ws_no_newline Let_def nl_def)
qed

lemma sub_ws_fixed:
  "\<forall>c \<in> set s. isspace c \<longrightarrow> c = CHR '' '' \<Longrightarrow> no_double_space s \<Longrightarrow> sub_ws s = s"
proof (induction s)
  case Nil
  then show ?case by simp
next
  case (Cons c cs)
  have ih: "sub_ws cs = cs"
    using Cons by (cases cs) auto
  show ?case
  proof (cases "isspace c")
    case True
    with Cons.prems have c: "c = CHR '' ''" by simp
    have "dropWhile isspace cs = cs"
    proof (cases cs)
      case Nil
      then show ?thesis by simp
    next
      case (Cons d ds)
      with Cons.prems(2) c have "d \<noteq> CHR '' ''" by simp
      moreover have "isspace d \<longrightarrow> d = CHR '' ''" using Cons.prems(1) Cons by simp
      ultimately show ?thesis using Cons by simp
    qed
    with True c ih show ?thesis by simp
  next
    case False
    with ih show ?thesis by simp
  qed
qed

lemma sub_del_fixed: "\<not> occurs p s \<Longrightarrow> sub_del p s = s"
  by (induction s) auto

lemma foldl_sub_del_fixed:
  "\<forall>p \<in> set ps. \<not> occurs p s \<Longrightarrow> foldl (\<lambda>t p. sub_del p t) s ps = s"
  by (induction ps) (simp_all add: sub_del_fixed)

lemma clean_text_only_space: "c \<in> set (clean_text t) \<Longrightarrow> isspace c \<Longrightarrow> c = CHR '' ''"
proof -
  assume c: "c \<in> set (clean_text t)" and sp: "isspace c"
  have "set (clean_text t) \<subseteq> set (sub_ws t)"
    using set_strip set_foldl_sub_del [of "sub_ws t" common_patterns]
    unfolding clean_text_eq by blast
  with c have "c \<in> set (sub_ws t)" by auto
  then show ?thesis using sp by (rule sub_ws_only_space)
qed

text \<open>
  Claim C8, as amended. A normalized text that holds no boilerplate pattern and no two
  spaces in a row is a fixed point of the normalizer: normalizing it again gives the same
  text.
\<close>

theorem clean_text_idempotent_if_settled:
  assumes "no_boilerplate (clean_text t)" and "no_double_space (clean_text t)"
  shows "clean_text (clean_text t) = clean_text t"
proof -
  let ?s = "clean_text t"
  have ws: "sub_ws ?s = ?s"
    using clean_text_only_space assms(2) by (intro sub_ws_fixed) auto
  have del: "foldl (\<lambda>t p. sub_del p t) ?s common_patterns = ?s"
    using assms(1) by (intro foldl_sub_del_fixed) (simp add: no_boilerplate_def)
  have "strip ?s = ?s"
    unfolding clean_text_eq by (rule strip_strip)
  then show ?thesis
    using ws del by (subst clean_text_eq) simp
qed

theorem clean_text_idempotent_if_settled_witness:
  "no_boilerplate (clean_text ''a   b '') \<and> no_double_space (clean_text ''a   b '')
   \<and> clean_text (clean_text ''a   b '') = ''a b''"
proof -
  have v: "clean_text ''a   b '' = ''a b''" by code_simp
  have nb: "no_boilerplate ''a b''" by code_simp
  have nd: "no_double_space ''a b''" by simp
  show ?thesis
    using clean_text_idempotent_if_settled [of "''a   b ''"] nb nd by (simp add: v)
qed

text \<open>
  Claim C8 as stated fails. Removing a pattern can join the text around it into a new
  occurrence of the pattern, or leave two spaces side by side, and the next application
  removes those.
\<close>

theorem clean_text_not_idempotent:
  "clean_text ''MeMenunu'' = ''Menu''
   \<and> clean_text (clean_text ''MeMenunu'') = ''''
   \<and> clean_text (clean_text ''MeMenunu'') \<noteq> clean_text ''MeMenunu''
   \<and> clean_text ''at Home now'' = ''at  now''
   \<and> clean_text (clean_text ''at Home now'') = ''at now''"
proof -
  have a: "clean_text ''MeMenunu'' = ''Menu''" by code_simp
  have b: "clean_text ''Menu'' = ''''" by code_simp
  have c: "clean_text ''at Home now'' = ''at  now''" by code_simp
  have d: "clean_text ''at  now'' = ''at now''" by code_simp
  show ?thesis by (simp add: a b c d)
qed

section \<open>Properties of the content extractor\<close>

subsection \<open>Method 1: the first container\<close>

lemma select_containers_first:
  assumes "descendants soup = pre @ e # post" and "is_container e"
    and "\<forall>x \<in> set pre. \<not> is_container x"
  shows "select_containers soup = e # filter is_container post"
  using assms by (simp add: select_containers_def)

lemma extract_first_container:
  assumes "descendants soup = pre @ e # post" and "is_container e"
    and "\<forall>x \<in> set pre. \<not> is_container x"
  shows "extract_article_content h2t_handle soup = Inr (get_text nl e)"
  using select_containers_first [OF assms] by (simp add: extract_article_content_def)

lemma is_container_Tag: "is_container e \<Longrightarrow> \<exists>name attrs contents. e = Tag name attrs contents"
  by (cases e) simp_all

text \<open>
  Claim C4. In every document with at least one element that matches the container
  selector, the main content is the text of the first such element in document order: the
  strings below it that the library counts as the text of that element, in depth-first
  order and joined by newlines. The other methods play no part: the result is the same for
  every Markdown converter, one that raises included.
\<close>

theorem extract_article_content_container:
  assumes "\<exists>x \<in> set (descendants soup). is_container x"
  shows "\<exists>pre name attrs contents post.
           descendants soup = pre @ Tag name attrs contents # post
           \<and> is_container (Tag name attrs contents)
           \<and> (\<forall>x \<in> set pre. \<not> is_container x)
           \<and> (\<forall>h2t_handle. extract_article_content h2t_handle soup
                   = Inr (join nl (map string_of (filter (is_interesting name)
                                     (descendants (Tag name attrs contents))))))"
proof -
  from assms obtain pre e post where
    d: "descendants soup = pre @ e # post" and e: "is_container e"
    and pre: "\<forall>x \<in> set pre. \<not> is_container x"
    by (auto dest!: split_list_first_prop)
  from e obtain name attrs contents where t: "e = Tag name attrs contents"
    using is_container_Tag by blast
  have "extract_article_content h2t_handle soup
          = Inr (join nl (map string_of (filter (is_interesting name)
                            (descendants (Tag name attrs contents)))))"
    for h2t_handle
    using extract_first_container [OF d e pre, of h2t_handle] by (simp add: t)
  with d e pre t show ?thesis by blast
qed

theorem extract_article_content_container_witness:
  "(\<exists>x \<in> set (descendants article_after_blocks). is_container x)
   \<and> extract_article_content (converter_failing ''not called'') article_after_blocks
       = Inr (''News'' @ nl @ ''Short text.'')
   \<and> extract_article_content (converter_failing ''not called'') script_container
       = Inr ''boot()''
   \<and> (\<exists>pre name attrs contents post.
           descendants article_after_blocks = pre @ Tag name attrs contents # post
           \<and> is_container (Tag name attrs contents)
           \<and> (\<forall>x \<in> set pre. \<not> is_container x)
           \<and> (\<forall>h2t_handle. extract_article_content h2t_handle article_after_blocks
                   = Inr (join nl (map string_of (filter (is_interesting name)
                                     (descendants (Tag name attrs contents)))))))"
proof -
  have c: "\<exists>x \<in> set (descendants article_after_blocks). is_container x"
    by (simp add: article_after_blocks_def)
  have v: "extract_article_content (converter_failing ''not called'') article_after_blocks
             = Inr (''News'' @ nl @ ''Short text.'')"
    by code_simp
  have s: "extract_article_content (converter_failing ''not called'') script_container
             = Inr ''boot()''"
    by code_simp
  from extract_article_content_container [OF c] c v s show ?thesis by blast
qed

subsection \<open>Method 2: the paragraphs\<close>

lemma length_join:
  "length (join sep xs) = sum_list (map length xs) + (length xs - 1) * length sep"
  by (induction sep xs rule: join.induct) simp_all

lemma extract_without_container:
  assumes "select_containers soup = []"
  shows "extract_article_content h2t_handle soup =
     (if 3 < length (find_all [''p''] soup) \<and> 500 < length (paragraph_content soup)
      then Inr (paragraph_content soup)
      else (case sorted_blocks soup of
              block # others \<Rightarrow> Inr (snd block)
            | [] \<Rightarrow> markdown_content h2t_handle soup))"
  using assms by (simp add: extract_article_content_def)

lemma all_fifty:
  assumes "map length ts = [50, 50, 50, 50, 50]"
  shows "filter (\<lambda>t. 40 < length t) ts = ts"
proof -
  have "length ` set ts = set (map length ts)" by simp
  also have "\<dots> = {50}" unfolding assms by simp
  finally have "\<forall>t \<in> set ts. length t = 50" by blast
  then show ?thesis by (intro filter_True) simp
qed

lemma five_of_fifty:
  assumes "map (\<lambda>p. length (strip (get_text [] p))) (find_all [''p''] soup) = [50, 50, 50, 50, 50]"
  shows "length (paragraph_content soup) = 258"
proof -
  define ts where "ts = map (\<lambda>p. strip (get_text [] p)) (find_all [''p''] soup)"
  have l: "map length ts = [50, 50, 50, 50, 50]"
    using assms by (simp add: ts_def comp_def)
  have n: "length ts = 5"
    using arg_cong [OF l, of length] by simp
  have "paragraph_content soup = join (nl @ nl) ts"
    using all_fifty [OF l] by (simp add: paragraph_content_def ts_def)
  then have "length (paragraph_content soup) = sum_list (map length ts) + (length ts - 1) * 2"
    by (simp add: length_join nl_def)
  then show ?thesis
    unfolding l n by simp
qed

lemma sorted_blocks_Nil: "text_blocks soup = [] \<Longrightarrow> sorted_blocks soup = []"
  by (simp add: sorted_blocks_def)

text \<open>
  Claim C5, as amended. In a document without container elements, Method 2 gives the
  result exactly when there are more than three paragraphs and the paragraphs longer than
  40 characters, joined by blank lines, come to more than 500 characters. Five paragraphs
  of 50 characters join to 258 characters, so that document is passed on to Method 3 and,
  when no block is longer than 200 characters, to Method 4.
\<close>

theorem extract_article_content_paragraphs:
  assumes "select_containers soup = []"
  shows "(3 < length (find_all [''p''] soup) \<and> 500 < length (paragraph_content soup)
            \<longrightarrow> extract_article_content h2t_handle soup = Inr (paragraph_content soup))
    \<and> (\<not> (3 < length (find_all [''p''] soup) \<and> 500 < length (paragraph_content soup))
            \<longrightarrow> extract_article_content h2t_handle soup =
                 (case sorted_blocks soup of
                    block # others \<Rightarrow> Inr (snd block)
                  | [] \<Rightarrow> markdown_content h2t_handle soup))
    \<and> (map (\<lambda>p. length (strip (get_text [] p))) (find_all [''p''] soup) = [50, 50, 50, 50, 50]
          \<and> text_blocks soup = []
            \<longrightarrow> length (paragraph_content soup) = 258
                \<and> extract_article_content h2t_handle soup = markdown_content h2t_handle soup)"
proof -
  note ex = extract_without_container [OF assms, of h2t_handle]
  have m2: "extract_article_content h2t_handle soup = Inr (paragraph_content soup)"
    if "3 < length (find_all [''p''] soup) \<and> 500 < length (paragraph_content soup)"
    using that by (simp add: ex)
  have m34: "extract_article_content h2t_handle soup =
                 (case sorted_blocks soup of
                    block # others \<Rightarrow> Inr (snd block)
                  | [] \<Rightarrow> markdown_content h2t_handle soup)"
    if "\<not> (3 < length (find_all [''p''] soup) \<and> 500 < length (paragraph_content soup))"
    using that by (auto simp: ex)
  have five: "length (paragraph_content soup) = 258
                \<and> extract_article_content h2t_handle soup = markdown_content h2t_handle soup"
    if h: "map (\<lambda>p. length (strip (get_text [] p))) (find_all [''p''] soup) = [50, 50, 50, 50, 50]
          \<and> text_blocks soup = []"
  proof -
    from h have len: "length (paragraph_content soup) = 258"
      by (intro five_of_fifty) (rule conjunct1)
    then have "\<not> (3 < length (find_all [''p''] soup) \<and> 500 < length (paragraph_content soup))"
      by simp
    from m34 [OF this] have "extract_article_content h2t_handle soup = markdown_content h2t_handle soup"
      using h by (simp add: sorted_blocks_Nil)
    with len show ?thesis by (rule conjI)
  qed
  from m2 m34 five show ?thesis by blast
qed

theorem extract_article_content_paragraphs_witness:
  "select_containers five_paragraphs = []
   \<and> map (\<lambda>p. length (strip (get_text [] p))) (find_all [''p''] five_paragraphs) = [50, 50, 50, 50, 50]
   \<and> text_blocks five_paragraphs = []
   \<and> length (paragraph_content five_paragraphs) = 258
   \<and> extract_article_content (converter_returning ''markdown'') five_paragraphs
        = markdown_content (converter_returning ''markdown'') five_paragraphs"
proof -
  have c: "select_containers five_paragraphs = []" by code_simp
  have p: "map (\<lambda>p. length (strip (get_text [] p))) (find_all [''p''] five_paragraphs)
             = [50, 50, 50, 50, 50]"
    by code_simp
  have b: "text_blocks five_paragraphs = []" by code_simp
  from extract_article_content_paragraphs [OF c, of "converter_returning ''markdown''"] c p b
  show ?thesis by blast
qed

text \<open>
  Claim C5 as stated fails: for five paragraphs of 50 characters the joined text has 258
  characters, Method 2 does not give the result and the page goes to Method 4, whose
  result is what the Markdown converter returns.
\<close>

theorem five_paragraphs_not_method_2:
  "length (find_all [''p''] five_paragraphs) = 5
   \<and> length (paragraph_content five_paragraphs) = 258
   \<and> extract_article_content (converter_returning ''markdown'') five_paragraphs = Inr ''markdown''
   \<and> extract_article_content (converter_returning ''markdown'') five_paragraphs
        \<noteq> Inr (paragraph_content five_paragraphs)"
proof -
  have n: "length (find_all [''p''] five_paragraphs) = 5" by code_simp
  have l: "length (paragraph_content five_paragraphs) = 258" by code_simp
  have e: "extract_article_content (converter_returning ''markdown'') five_paragraphs = Inr ''markdown''"
    by code_simp
  have "paragraph_content five_paragraphs \<noteq> ''markdown''"
    using l by auto
  with n l e show ?thesis by simp
qed

subsection \<open>Method 3: the largest block\<close>

text \<open>
  The head of a stably sorted list is the first element of the list with the least key.
\<close>

lemma hd_insort_key:
  "hd (insort_key f x ys) = (if ys = [] \<or> f x \<le> f (hd ys) then x else hd ys)"
  by (cases ys) simp_all

lemma sort_key_Nil_iff: "sort_key f xs = [] \<longleftrightarrow> xs = []"
  by (metis length_0_conv length_sort)

lemma hd_sort_key_first_least:
  "xs \<noteq> [] \<Longrightarrow>
     \<exists>i < length xs. hd (sort_key f xs) = xs ! i
        \<and> (\<forall>j < length xs. f (xs ! i) \<le> f (xs ! j))
        \<and> (\<forall>j < i. f (xs ! i) < f (xs ! j))"
proof (induction xs)
  case Nil
  then show ?case by simp
next
  case (Cons x xs)
  have hd_eq: "hd (sort_key f (x # xs))
      = (if xs = [] \<or> f x \<le> f (hd (sort_key f xs)) then x else hd (sort_key f xs))"
    by (simp add: hd_insort_key sort_key_Nil_iff)
  show ?case
  proof (cases "xs = []")
    case True
    then show ?thesis by simp
  next
    case False
    from Cons.IH [OF False] obtain i where i: "i < length xs"
      and h: "hd (sort_key f xs) = xs ! i"
      and least: "\<forall>j < length xs. f (xs ! i) \<le> f (xs ! j)"
      and first: "\<forall>j < i. f (xs ! i) < f (xs ! j)"
      by blast
    show ?thesis
    proof (cases "f x \<le> f (xs ! i)")
      case True
      have "\<forall>j < length (x # xs). f ((x # xs) ! 0) \<le> f ((x # xs) ! j)"
      proof (intro allI impI)
        fix j assume "j < length (x # xs)"
        then show "f ((x # xs) ! 0) \<le> f ((x # xs) ! j)"
          using True least by (cases j) (auto intro: order_trans)
      qed
      moreover have "hd (sort_key f (x # xs)) = (x # xs) ! 0"
        using True h hd_eq by simp
      ultimately show ?thesis by (intro exI [of _ 0]) simp
    next
      case less: False
      have "\<forall>j < length (x # xs). f ((x # xs) ! Suc i) \<le> f ((x # xs) ! j)"
      proof (intro allI impI)
        fix j assume "j < length (x # xs)"
        then show "f ((x # xs) ! Suc i) \<le> f ((x # xs) ! j)"
          using less least by (cases j) auto
      qed
      moreover have "\<forall>j < Suc i. f ((x # xs) ! Suc i) < f ((x # xs) ! j)"
      proof (intro allI impI)
        fix j assume "j < Suc i"
        then show "f ((x # xs) ! Suc i) < f ((x # xs) ! j)"
          using less first by (cases j) auto
      qed
      moreover have "hd (sort_key f (x # xs)) = (x # xs) ! Suc i"
        using less False h hd_eq by simp
      ultimately show ?thesis
        using i by (intro exI [of _ "Suc i"]) simp
    qed
  qed
qed

lemma text_blocks_entries:
  "(tag, text) \<in> set (text_blocks soup) \<longleftrightarrow>
     tag \<in> set (find_all [''div'', ''section''] soup)
     \<and> text = strip (get_text [] tag) \<and> 200 < length text"
  by (auto simp: text_blocks_def)

text \<open>
  Claim C6, as amended. When Methods 1 and 2 give no result, the candidates of Method 3
  are the \<^verbatim>\<open>div\<close> and \<^verbatim>\<open>section\<close> elements whose trimmed text is longer than 200
  characters, in document order; a block of 200 characters or fewer is no candidate. If
  there is a candidate, the main content is the trimmed text of the longest one, the first
  of them in document order when several are as long.
\<close>

theorem extract_article_content_largest_block:
  assumes "select_containers soup = []"
    and "\<not> (3 < length (find_all [''p''] soup) \<and> 500 < length (paragraph_content soup))"
    and "text_blocks soup \<noteq> []"
  shows "\<exists>i < length (text_blocks soup).
           extract_article_content h2t_handle soup = Inr (snd (text_blocks soup ! i))
           \<and> fst (text_blocks soup ! i) \<in> set (find_all [''div'', ''section''] soup)
           \<and> snd (text_blocks soup ! i) = strip (get_text [] (fst (text_blocks soup ! i)))
           \<and> 200 < length (snd (text_blocks soup ! i))
           \<and> (\<forall>j < length (text_blocks soup).
                  length (snd (text_blocks soup ! j)) \<le> length (snd (text_blocks soup ! i)))
           \<and> (\<forall>j < i. length (snd (text_blocks soup ! j)) < length (snd (text_blocks soup ! i)))"
proof -
  let ?f = "\<lambda>(tag, text). - int (length (text :: string))"
  let ?bs = "text_blocks soup"
  from hd_sort_key_first_least [OF assms(3), of ?f] obtain i where i: "i < length ?bs"
    and h: "hd (sort_key ?f ?bs) = ?bs ! i"
    and least: "\<forall>j < length ?bs. ?f (?bs ! i) \<le> ?f (?bs ! j)"
    and first: "\<forall>j < i. ?f (?bs ! i) < ?f (?bs ! j)"
    by blast
  have ne: "sorted_blocks soup \<noteq> []"
    using assms(3) by (simp add: sorted_blocks_def sort_key_Nil_iff)
  then obtain b bs where s: "sorted_blocks soup = b # bs"
    by (cases "sorted_blocks soup") auto
  then have "b = ?bs ! i"
    using h by (simp add: sorted_blocks_def)
  then have r: "extract_article_content h2t_handle soup = Inr (snd (?bs ! i))"
    using assms(1,2) s by (auto simp: extract_article_content_def)
  have "?bs ! i \<in> set ?bs" using i by simp
  then have m: "fst (?bs ! i) \<in> set (find_all [''div'', ''section''] soup)
      \<and> snd (?bs ! i) = strip (get_text [] (fst (?bs ! i))) \<and> 200 < length (snd (?bs ! i))"
    using text_blocks_entries [of "fst (?bs ! i)" "snd (?bs ! i)" soup] by auto
  have "\<forall>j < length ?bs. length (snd (?bs ! j)) \<le> length (snd (?bs ! i))"
    using least by (auto simp: case_prod_beta)
  moreover have "\<forall>j < i. length (snd (?bs ! j)) < length (snd (?bs ! i))"
    using first by (auto simp: case_prod_beta)
  ultimately show ?thesis
    using i r m by blast
qed

theorem extract_article_content_largest_block_witness:
  "select_containers equal_blocks = []
   \<and> \<not> (3 < length (find_all [''p''] equal_blocks) \<and> 500 < length (paragraph_content equal_blocks))
   \<and> map snd (text_blocks equal_blocks)
        = [replicate 250 CHR ''x'', replicate 250 CHR ''y'', replicate 210 CHR ''z'']
   \<and> extract_article_content (converter_returning ''markdown'') equal_blocks
        = Inr (replicate 250 CHR ''x'')
   \<and> (\<exists>i < length (text_blocks equal_blocks).
           extract_article_content (converter_returning ''markdown'') equal_blocks
             = Inr (snd (text_blocks equal_blocks ! i))
           \<and> (\<forall>j < length (text_blocks equal_blocks).
                  length (snd (text_blocks equal_blocks ! j))
                    \<le> length (snd (text_blocks equal_blocks ! i)))
           \<and> (\<forall>j < i. length (snd (text_blocks equal_blocks ! j))
                          < length (snd (text_blocks equal_blocks ! i))))"
proof -
  have c: "select_containers equal_blocks = []" by code_simp
  have p: "\<not> (3 < length (find_all [''p''] equal_blocks) \<and> 500 < length (paragraph_content equal_blocks))"
    by code_simp
  have b: "map snd (text_blocks equal_blocks)
        = [replicate 250 CHR ''x'', replicate 250 CHR ''y'', replicate 210 CHR ''z'']"
    by code_simp
  have ne: "text_blocks equal_blocks \<noteq> []" by code_simp
  have v: "extract_article_content (converter_returning ''markdown'') equal_blocks
        = Inr (replicate 250 CHR ''x'')"
    by code_simp
  from extract_article_content_largest_block [OF c p ne, of "converter_returning ''markdown''"] c p b v
  show ?thesis by blast
qed

text \<open>
  Claim C6 as stated fails at the boundary: a block whose trimmed text has exactly 200
  characters is not shorter than 200 characters, yet it is no candidate, and the page goes
  to Method 4.
\<close>

theorem block_of_200_not_selected:
  "find_all [''div'', ''section''] block_of_200
     = [Tag ''div'' [] [NavigableString (replicate 200 CHR ''x'')]]
   \<and> length (strip (get_text [] (Tag ''div'' [] [NavigableString (replicate 200 CHR ''x'')]))) = 200
   \<and> text_blocks block_of_200 = []
   \<and> extract_article_content (converter_returning ''markdown'') block_of_200 = Inr ''markdown''"
proof -
  have f: "find_all [''div'', ''section''] block_of_200
     = [Tag ''div'' [] [NavigableString (replicate 200 CHR ''x'')]]"
    by code_simp
  have l: "length (strip (get_text [] (Tag ''div'' [] [NavigableString (replicate 200 CHR ''x'')]))) = 200"
    by code_simp
  have t: "text_blocks block_of_200 = []" by code_simp
  have e: "extract_article_content (converter_returning ''markdown'') block_of_200 = Inr ''markdown''"
    by code_simp
  from f l t e show ?thesis by simp
qed

subsection \<open>Open-Graph data\<close>

lemma replace_all_absent: "\<not> contains s old \<Longrightarrow> replace_all old new s = s"
  by (induction s) auto

lemma replace_og_prefix:
  assumes "\<not> contains key ''og:''"
  shows "replace (''og:'' @ key) ''og:'' [] = key"
proof -
  have "replace_all ''og:'' [] (''og:'' @ key) = replace_all ''og:'' [] key"
    by (simp add: startswith_def)
  then show ?thesis
    using assms by (simp add: replace_def replace_all_absent)
qed

lemma og_entry_prefixed:
  assumes "get meta ''property'' = Some (''og:'' @ key)" and "key \<noteq> []"
    and "\<not> contains key ''og:''" and "get meta ''content'' = Some c" and "c \<noteq> []"
  shows "og_entry meta = Some (key, strip c)"
  using assms(1,2,4,5) replace_og_prefix [OF assms(3)] by (simp add: og_entry_def)

lemma foldl_og_store_other:
  "\<forall>m \<in> set metas. \<forall>v. og_entry m \<noteq> Some (key, v) \<Longrightarrow> foldl og_store d metas key = d key"
proof (induction metas arbitrary: d)
  case Nil
  then show ?case by simp
next
  case (Cons m metas)
  have "og_store d m key = d key"
    using Cons.prems by (cases "og_entry m") (auto simp: og_store_def)
  moreover have "foldl og_store (og_store d m) metas key = og_store d m key"
    using Cons.prems by (intro Cons.IH) simp
  ultimately show ?case by simp
qed

text \<open>
  The key is what is left of the property after every \<^verbatim>\<open>og:\<close> in it is removed, not
  only the one in front.
\<close>

lemma og_entry_inner_prefix:
  "og_entry (Tag ''meta'' [(''property'', ''og:blog:title''), (''content'', ''T'')] [])
     = Some (''bltitle'', ''T'')"
  by code_simp

text \<open>
  Claim C7, as amended. A \<^verbatim>\<open>meta\<close> element whose property is \<^verbatim>\<open>og:\<close> followed by a
  non-empty key (with no further \<^verbatim>\<open>og:\<close> inside the key) and whose content attribute is
  not empty stores its trimmed content under that key, and the value found under the key
  is that of the last such element in document order. An element with a missing or empty
  content attribute, or with nothing behind \<^verbatim>\<open>og:\<close>, stores nothing. Two
  \<^verbatim>\<open>og:title\<close> elements with the contents A and B give the title B.
\<close>

theorem og_data_last_wins:
  assumes "og_metas soup = pre @ meta # post"
    and "get meta ''property'' = Some (''og:'' @ key)" and "key \<noteq> []"
    and "\<not> contains key ''og:''"
    and "get meta ''content'' = Some c" and "c \<noteq> []"
    and "\<forall>m \<in> set post. \<forall>v. og_entry m \<noteq> Some (key, v)"
  shows "og_data_of soup key = Some (strip c)
    \<and> (\<forall>m. get m ''content'' = None \<or> get m ''content'' = Some [] \<or> get m ''property'' = Some ''og:''
           \<longrightarrow> og_entry m = None \<and> (\<forall>d. og_store d m = d))"
proof -
  have e: "og_entry meta = Some (key, strip c)"
    using assms(2-6) by (rule og_entry_prefixed)
  have "og_data_of soup key = foldl og_store (og_store (foldl og_store Map.empty pre) meta) post key"
    by (simp add: og_data_of_def assms(1))
  also have "\<dots> = og_store (foldl og_store Map.empty pre) meta key"
    using assms(7) by (rule foldl_og_store_other)
  also have "\<dots> = Some (strip c)"
    by (simp add: og_store_def e)
  finally have 1: "og_data_of soup key = Some (strip c)" .
  have 2: "og_entry m = None \<and> (\<forall>d. og_store d m = d)"
    if "get m ''content'' = None \<or> get m ''content'' = Some [] \<or> get m ''property'' = Some ''og:''" for m
  proof -
    have "replace ''og:'' ''og:'' [] = []"
      by (simp add: replace_def startswith_def)
    then have "og_entry m = None"
      using that by (auto simp: og_entry_def split: option.splits)
    then show ?thesis by (simp add: og_store_def)
  qed
  from 1 2 show ?thesis by blast
qed

theorem og_data_last_wins_witness:
  "og_data_of og_title_twice ''title'' = Some ''B''
   \<and> og_data_of og_title_twice = [''title'' \<mapsto> ''B'']
   \<and> og_entry (Tag ''meta'' [(''property'', ''og:image'')] []) = None"
proof -
  let ?a = "Tag ''meta'' [(''property'', ''og:title''), (''content'', ''A'')] []"
  let ?b = "Tag ''meta'' [(''property'', ''og:title''), (''content'', ''B'')] []"
  have m: "og_metas og_title_twice = [?a] @ ?b # []"
    by (simp add: og_metas_def og_title_twice_def startswith_def)
  have p: "get ?b ''property'' = Some (''og:'' @ ''title'')" by simp
  have k: "\<not> contains ''title'' ''og:''" by (simp add: startswith_def)
  have c: "get ?b ''content'' = Some ''B''" by simp
  have s: "strip ''B'' = ''B''" by code_simp
  have ea: "og_entry ?a = Some (''title'', ''A'')" by code_simp
  have eb: "og_entry ?b = Some (''title'', ''B'')" by code_simp
  have w: "og_data_of og_title_twice = [''title'' \<mapsto> ''B'']"
    unfolding og_data_of_def m by (simp add: og_store_def ea eb)
  have n: "get (Tag ''meta'' [(''property'', ''og:image'')] []) ''content'' = None" by simp
  have "og_data_of og_title_twice ''title'' = Some (strip ''B'')
    \<and> (\<forall>m. get m ''content'' = None \<or> get m ''content'' = Some [] \<or> get m ''property'' = Some ''og:''
           \<longrightarrow> og_entry m = None \<and> (\<forall>d. og_store d m = d))"
    by (rule og_data_last_wins [OF m p _ k c]) simp_all
  with s w n show ?thesis by auto
qed

text \<open>
  Claim C7 as stated fails: the second \<^verbatim>\<open>og:title\<close> element matches the pattern, but its
  content is empty, so it stores nothing and the first value stays.
\<close>

theorem og_empty_content_not_stored:
  "og_metas og_title_then_empty
     = [Tag ''meta'' [(''property'', ''og:title''), (''content'', ''A'')] [],
        Tag ''meta'' [(''property'', ''og:title''), (''content'', '''')] []]
   \<and> og_data_of og_title_then_empty ''title'' = Some ''A''
   \<and> og_data_of og_title_then_empty ''title'' \<noteq> Some (strip '''')"
proof -
  have m: "og_metas og_title_then_empty
     = [Tag ''meta'' [(''property'', ''og:title''), (''content'', ''A'')] [],
        Tag ''meta'' [(''property'', ''og:title''), (''content'', '''')] []]"
    by code_simp
  have v: "og_data_of og_title_then_empty ''title'' = Some ''A''" by code_simp
  have s: "strip '''' = ''''" by (simp add: strip_def)
  from m v s show ?thesis by simp
qed

subsection \<open>parse_content\<close>


lemma extract_raises:
  "extract_article_content h2t_handle soup = Inl e \<Longrightarrow> h2t_handle soup = Inl e"
  by (auto simp: extract_article_content_def markdown_content_def
      split: list.splits if_splits sum.splits)

lemma rejected_example: "marked_section_rejected ''<![x[y]]>''"
  by code_simp

lemma accepted_examples:
  "\<not> marked_section_rejected ''<![if''" "\<not> marked_section_rejected ''<![CDATA[y]]>''"
  "\<not> marked_section_rejected ''<p>...</p>''"
  by code_simp+




end
